theory Spec2Isabelle
  imports Main "HOL-Library.Word"
begin

unbundle bit_operations_syntax

section \<open>Data model\<close>

text \<open>
  A shallow embedding of the TCF 2.x consent-string parser of package
  \<^verbatim>\<open>vendorconsent\<close> (file \<^verbatim>\<open>vendorconsent/tcf2/consent.go\<close>).
  Go's \<^verbatim>\<open>[]byte\<close> is a list of 8-bit words, a Go \<^verbatim>\<open>string\<close> is a list of
  8-bit characters, a \<^verbatim>\<open>uint16\<close> is a 16-bit word. Bit offsets are Go \<^verbatim>\<open>uint\<close>
  values (64 bits); every offset the parser computes is bounded by eight times
  the buffer length plus a small constant, so they are modelled by \<^typ>\<open>nat\<close>.
  A Go result pair \<^verbatim>\<open>(v, err)\<close> is a value of a sum type, \<open>Inl\<close> the error.
\<close>

type_synonym byte = "8 word"
type_synonym uint16 = "16 word"

datatype error =
    ErrEmptyDecodedConsent
  | EmptySegmentString
  | FailedToDecodeSegment
  | SegmentTooShort
  | FailedToParseDisclosedVendors error
  | DataIsEmpty
  | SegmentTooShortBytes nat
  | ParseSegmentType error
  | ExpectedSegmentType1 byte
  | ParseMaxVendorId error
  | ParseRangeSectionFailed error
  | ParseBitFieldFailed error
  | NoLegitimateInterestStart
  | Malformed
  | Truncated
  | OutOfRange

text \<open>
  Modelled from the spec: the two variants of \<^verbatim>\<open>vendorConsentsResolver\<close>, whose
  declarations are not among the sources. A BitField is the run of bits read,
  one per vendor ID from 1 to its maximum; a RangeSection is the list of
  inclusive ranges in the order read. Both record the maximum vendor ID given
  to the decoder.
\<close>

datatype rangeConsent = RangeConsent (startID: uint16) (endID: uint16)

datatype vendorConsentsResolver =
    BitField (bits: "bool list") (bitFieldMaxID: uint16)
  | RangeSection (ranges: "rangeConsent list") (rangeMaxID: uint16)

text \<open>
  Modelled from the spec: a publisher restriction, a purpose ID, a restriction
  type and the ranges of vendors it applies to.
\<close>

datatype pubRestriction =
  PubRestriction (purposeID: nat) (restrictionType: nat) (restrictedVendors: "rangeConsent list")

text \<open>
  The struct \<^verbatim>\<open>ConsentMetadata\<close>, with the fields that \<^verbatim>\<open>Parse\<close>,
  \<^verbatim>\<open>parseCoreAndDisclosedVendors\<close> and \<^verbatim>\<open>parseDisclosedVendorsSegment\<close> assign.
  A nil interface value is \<open>None\<close>.
\<close>

record ConsentMetadata =
  data :: "byte list"
  vendorConsents :: "vendorConsentsResolver option"
  vendorLegitimateInterests :: "vendorConsentsResolver option"
  vendorLegitimateInterestStart :: nat
  pubRestrictionsStart :: nat
  publisherRestrictions :: "pubRestriction list option"
  disclosedVendors :: "vendorConsentsResolver option"
  hasDisclosedVendors :: bool

text \<open>The composite literal \<^verbatim>\<open>ConsentMetadata{data: data}\<close>: every other field zero.\<close>

definition ConsentMetadata_of_data :: "byte list \<Rightarrow> ConsentMetadata" where
  "ConsentMetadata_of_data d =
     \<lparr>data = d, vendorConsents = None, vendorLegitimateInterests = None,
      vendorLegitimateInterestStart = 0, pubRestrictionsStart = 0,
      publisherRestrictions = None, disclosedVendors = None,
      hasDisclosedVendors = False\<rparr>"

definition consentStringTCF2Separator :: char where
  "consentStringTCF2Separator = CHR ''.''"

definition SegmentTypeCoreString :: byte where
  "SegmentTypeCoreString = 0"

definition SegmentTypeDisclosedVendors :: byte where
  "SegmentTypeDisclosedVendors = 1"

definition SegmentTypePublisherTC :: byte where
  "SegmentTypePublisherTC = 3"

section \<open>Bit reader\<close>

text \<open>
  Modelled from the spec: package \<^verbatim>\<open>bitutils\<close> and the helper \<^verbatim>\<open>isSet\<close> are not
  among the sources. The bit at a 0-based offset, most significant bit of each
  byte first.
\<close>

definition bitAt :: "byte list \<Rightarrow> nat \<Rightarrow> bool" where
  "bitAt d i = bit (d ! (i div 8)) (7 - i mod 8)"

text \<open>
  Modelled from the spec: an unsigned integer of width \<open>w\<close> read at a bit offset,
  most significant bit first across byte boundaries; it fails with \<open>OutOfRange\<close>
  when offset plus width exceeds the bit length of the buffer.
\<close>

fun bitsValue :: "bool list \<Rightarrow> nat \<Rightarrow> nat" where
  "bitsValue [] acc = acc"
| "bitsValue (b # bs) acc = bitsValue bs (2 * acc + (if b then 1 else 0))"

definition ParseUInt :: "nat \<Rightarrow> byte list \<Rightarrow> nat \<Rightarrow> error + nat" where
  "ParseUInt w d bitStartIndex =
     (if 8 * length d < bitStartIndex + w then Inl OutOfRange
      else Inr (bitsValue (map (bitAt d) [bitStartIndex..<bitStartIndex + w]) 0))"

text \<open>Modelled from the spec: \<^verbatim>\<open>bitutils.ParseByte8\<close>, the 8-bit read.\<close>

definition ParseByte8 :: "byte list \<Rightarrow> nat \<Rightarrow> error + byte" where
  "ParseByte8 d bitStartIndex = map_sum id of_nat (ParseUInt 8 d bitStartIndex)"

text \<open>Modelled from the spec: \<^verbatim>\<open>bitutils.ParseUInt12\<close>, the 12-bit read into a \<^verbatim>\<open>uint16\<close>.\<close>

definition ParseUInt12 :: "byte list \<Rightarrow> nat \<Rightarrow> error + uint16" where
  "ParseUInt12 d bitStartIndex = map_sum id of_nat (ParseUInt 12 d bitStartIndex)"

text \<open>Modelled from the spec: \<^verbatim>\<open>bitutils.ParseUInt16\<close>, the 16-bit read.\<close>

definition ParseUInt16 :: "byte list \<Rightarrow> nat \<Rightarrow> error + uint16" where
  "ParseUInt16 d bitStartIndex = map_sum id of_nat (ParseUInt 16 d bitStartIndex)"

text \<open>
  Modelled from the spec: \<^verbatim>\<open>isSet\<close>, the single bit as a boolean. The source
  calls it where a \<^verbatim>\<open>bool\<close> is expected, so a read past the buffer is a run-time
  failure of the call and not a returned error; the model keeps that failure as
  \<open>Inl OutOfRange\<close>.
\<close>

definition isSet :: "byte list \<Rightarrow> nat \<Rightarrow> error + bool" where
  "isSet d bitIndex =
     (if 8 * length d < bitIndex + 1 then Inl OutOfRange else Inr (bitAt d bitIndex))"

section \<open>Vendor set decoders\<close>

text \<open>
  Modelled from the spec: \<^verbatim>\<open>parseBitField\<close>. It reads exactly \<open>maxVendorID\<close> bits
  from \<open>startbit\<close>, one per vendor ID in ascending order, and returns the set with
  the offset after the last bit; it fails with \<open>Truncated\<close> when the buffer lacks
  the bits.
\<close>

definition parseBitField ::
  "ConsentMetadata \<Rightarrow> uint16 \<Rightarrow> nat \<Rightarrow> error + vendorConsentsResolver \<times> nat" where
  "parseBitField metadata maxVendorID startbit =
     (if 8 * length (data metadata) < startbit + unat maxVendorID then Inl Truncated
      else Inr (BitField (map (bitAt (data metadata)) [startbit..<startbit + unat maxVendorID])
                  maxVendorID,
                startbit + unat maxVendorID))"

text \<open>
  Modelled from the spec: the range-entry grammar shared by RangeSection and the
  publisher restrictions. Each entry is a 1-bit flag, then one 16-bit ID (a range
  of length one) when the flag is 0, or a 16-bit start and a 16-bit end when it
  is 1. Nothing is validated; a read past the buffer is \<open>Truncated\<close>.
\<close>

fun parseRangeEntries :: "byte list \<Rightarrow> nat \<Rightarrow> nat \<Rightarrow> error + rangeConsent list \<times> nat" where
  "parseRangeEntries d 0 offset = Inr ([], offset)"
| "parseRangeEntries d (Suc n) offset =
     (case isSet d offset of
        Inl e \<Rightarrow> Inl Truncated
      | Inr isRange \<Rightarrow>
          if isRange then
            (case ParseUInt16 d (offset + 1) of
               Inl e \<Rightarrow> Inl Truncated
             | Inr s \<Rightarrow>
                 (case ParseUInt16 d (offset + 17) of
                    Inl e \<Rightarrow> Inl Truncated
                  | Inr t \<Rightarrow>
                      (case parseRangeEntries d n (offset + 33) of
                         Inl e \<Rightarrow> Inl e
                       | Inr (rs, off') \<Rightarrow> Inr (RangeConsent s t # rs, off'))))
          else
            (case ParseUInt16 d (offset + 1) of
               Inl e \<Rightarrow> Inl Truncated
             | Inr s \<Rightarrow>
                 (case parseRangeEntries d n (offset + 17) of
                    Inl e \<Rightarrow> Inl e
                  | Inr (rs, off') \<Rightarrow> Inr (RangeConsent s s # rs, off'))))"

text \<open>
  Modelled from the spec: \<^verbatim>\<open>parseRangeSection\<close>, a 12-bit range count and that
  many entries; the maximum vendor ID is recorded as given.
\<close>

definition parseRangeSection ::
  "ConsentMetadata \<Rightarrow> uint16 \<Rightarrow> nat \<Rightarrow> error + vendorConsentsResolver \<times> nat" where
  "parseRangeSection metadata maxVendorID startbit =
     (case ParseUInt12 (data metadata) startbit of
        Inl e \<Rightarrow> Inl Truncated
      | Inr numRanges \<Rightarrow>
          (case parseRangeEntries (data metadata) (unat numRanges) (startbit + 12) of
             Inl e \<Rightarrow> Inl e
           | Inr (rs, off') \<Rightarrow> Inr (RangeSection rs maxVendorID, off')))"

text \<open>
  Modelled from the spec: membership in a vendor set (the method \<^verbatim>\<open>VendorConsent\<close>
  of a resolver). An ID below 1 or above the maximum is absent from a BitField;
  a RangeSection is scanned linearly.
\<close>

fun resolverContains :: "vendorConsentsResolver \<Rightarrow> uint16 \<Rightarrow> bool" where
  "resolverContains (BitField bs maxID) vid =
     (if vid < 1 \<or> maxID < vid \<or> length bs < unat vid then False else bs ! (unat vid - 1))"
| "resolverContains (RangeSection rs maxID) vid =
     list_ex (\<lambda>r. startID r \<le> vid \<and> vid \<le> endID r) rs"

fun resolverMaxID :: "vendorConsentsResolver \<Rightarrow> uint16" where
  "resolverMaxID (BitField bs maxID) = maxID"
| "resolverMaxID (RangeSection rs maxID) = maxID"

section \<open>Publisher restrictions and the header\<close>

text \<open>
  Modelled from the spec: \<^verbatim>\<open>parsePubRestriction\<close>. A 12-bit restriction count,
  then for each entry a 6-bit purpose ID, a 2-bit restriction type and a range
  list (12-bit count and entries, with no leading encoding bit). It returns the
  list and the final bit offset and fails with \<open>Truncated\<close> on insufficient bits.
\<close>

fun parsePubRestrictionEntries ::
  "byte list \<Rightarrow> nat \<Rightarrow> nat \<Rightarrow> error + pubRestriction list \<times> nat" where
  "parsePubRestrictionEntries d 0 offset = Inr ([], offset)"
| "parsePubRestrictionEntries d (Suc n) offset =
     (case ParseUInt 6 d offset of
        Inl e \<Rightarrow> Inl Truncated
      | Inr purpose \<Rightarrow>
          (case ParseUInt 2 d (offset + 6) of
             Inl e \<Rightarrow> Inl Truncated
           | Inr rtype \<Rightarrow>
               (case ParseUInt12 d (offset + 8) of
                  Inl e \<Rightarrow> Inl Truncated
                | Inr numEntries \<Rightarrow>
                    (case parseRangeEntries d (unat numEntries) (offset + 20) of
                       Inl e \<Rightarrow> Inl e
                     | Inr (vs, off') \<Rightarrow>
                         (case parsePubRestrictionEntries d n off' of
                            Inl e \<Rightarrow> Inl e
                          | Inr (ps, off'') \<Rightarrow>
                              Inr (PubRestriction purpose rtype vs # ps, off''))))))"

definition parsePubRestriction ::
  "ConsentMetadata \<Rightarrow> nat \<Rightarrow> error + pubRestriction list \<times> nat" where
  "parsePubRestriction metadata startbit =
     (case ParseUInt12 (data metadata) startbit of
        Inl e \<Rightarrow> Inl Truncated
      | Inr numRestrictions \<Rightarrow>
          parsePubRestrictionEntries (data metadata) (unat numRestrictions) (startbit + 12))"

text \<open>
  Modelled from the spec: \<^verbatim>\<open>parseMetadata\<close>. It fails with \<open>Malformed\<close> when the
  buffer is shorter than the guaranteed minimum header of 29 bytes, before any
  field is read (the comment in \<^verbatim>\<open>Parse\<close> relies on those 29 bytes), and
  otherwise wraps the buffer.
\<close>

definition parseMetadata :: "byte list \<Rightarrow> error + ConsentMetadata" where
  "parseMetadata d =
     (if length d < 29 then Inl Malformed else Inr (ConsentMetadata_of_data d))"

text \<open>
  Modelled from the spec: the header accessors \<^verbatim>\<open>MaxVendorID\<close> (the 16-bit field
  the spec's layout places at bits 207 to 222) and \<^verbatim>\<open>VendorListVersion\<close> (12 bits
  at 120 to 131). On a buffer too short for the field the read fails.
\<close>

definition MaxVendorID :: "ConsentMetadata \<Rightarrow> error + uint16" where
  "MaxVendorID c = ParseUInt16 (data c) 207"

definition VendorListVersion :: "ConsentMetadata \<Rightarrow> error + uint16" where
  "VendorListVersion c = ParseUInt12 (data c) 120"

section \<open>The core string\<close>

text \<open>
  \<^verbatim>\<open>Parse\<close>, statement by statement. The two branches on the encoding bit are
  the calls of \<^verbatim>\<open>parseRangeSection\<close> and \<^verbatim>\<open>parseBitField\<close> at bit 230; the
  legitimate-interest set follows the 16-bit maximum and its own encoding bit.
\<close>

definition Parse :: "byte list \<Rightarrow> error + ConsentMetadata" where
  "Parse d =
     (case parseMetadata d of
        Inl err \<Rightarrow> Inl err
      | Inr metadata \<Rightarrow>
     (case isSet d 229 of
        Inl err \<Rightarrow> Inl err
      | Inr isRange \<Rightarrow>
     (case MaxVendorID metadata of
        Inl err \<Rightarrow> Inl err
      | Inr maxVendorID \<Rightarrow>
     (case (if isRange then parseRangeSection metadata maxVendorID 230
            else parseBitField metadata maxVendorID 230) of
        Inl err \<Rightarrow> Inl err
      | Inr (vendorConsents', legitIntStart) \<Rightarrow>
     (let metadata1 = metadata\<lparr>vendorConsents := Some vendorConsents',
                                vendorLegitimateInterestStart := legitIntStart + 17\<rparr>
      in
     (case ParseUInt16 d legitIntStart of
        Inl err \<Rightarrow> Inl err
      | Inr legIntMaxVend \<Rightarrow>
     (if length d * 8 \<le> legitIntStart + 16 then Inl NoLegitimateInterestStart
      else
     (case isSet d (legitIntStart + 16) of
        Inl err \<Rightarrow> Inl err
      | Inr isRangeLI \<Rightarrow>
     (case (if isRangeLI
            then parseRangeSection metadata1 legIntMaxVend
                   (vendorLegitimateInterestStart metadata1)
            else parseBitField metadata1 legIntMaxVend
                   (vendorLegitimateInterestStart metadata1)) of
        Inl err \<Rightarrow> Inl err
      | Inr (vendorLegitInts, pubRestrictsStart) \<Rightarrow>
     (let metadata2 = metadata1\<lparr>vendorLegitimateInterests := Some vendorLegitInts,
                                 pubRestrictionsStart := pubRestrictsStart\<rparr>
      in
     (case parsePubRestriction metadata2 pubRestrictsStart of
        Inl err \<Rightarrow> Inl err
      | Inr (pubRestrictions, uu) \<Rightarrow>
          Inr (metadata2\<lparr>publisherRestrictions := Some pubRestrictions\<rparr>))))))))))))"

section \<open>Segments\<close>

text \<open>
  \<^verbatim>\<open>base64.RawURLEncoding.Decode\<close> of Go's standard library: the URL alphabet
  \<^verbatim>\<open>A-Z a-z 0-9 - _\<close> without padding. Carriage returns and line feeds are
  skipped, any other character outside the alphabet is an error, four characters
  give three bytes, a final group of three gives two bytes and of two gives one
  byte (surplus bits dropped), and a final group of a single character is an
  error.
\<close>

definition decodeMap :: "char \<Rightarrow> nat option" where
  "decodeMap c =
     (let n = (of_char c :: nat) in
      if 65 \<le> n \<and> n \<le> 90 then Some (n - 65)
      else if 97 \<le> n \<and> n \<le> 122 then Some (n - 71)
      else if 48 \<le> n \<and> n \<le> 57 then Some (n + 4)
      else if n = 45 then Some 62
      else if n = 95 then Some 63
      else None)"

fun sextets :: "string \<Rightarrow> nat list option" where
  "sextets [] = Some []"
| "sextets (c # cs) =
     (if of_char c = (10 :: nat) \<or> of_char c = (13 :: nat) then sextets cs
      else (case decodeMap c of
              None \<Rightarrow> None
            | Some v \<Rightarrow> map_option ((#) v) (sextets cs)))"

fun decodeQuanta :: "nat list \<Rightarrow> byte list option" where
  "decodeQuanta (a # b # c # e # rest) =
     map_option
       (\<lambda>bs. of_nat ((a * 64 + b) div 16) # of_nat ((b * 64 + c) div 4) # of_nat (c * 64 + e) # bs)
       (decodeQuanta rest)"
| "decodeQuanta [a, b, c] = Some [of_nat ((a * 64 + b) div 16), of_nat ((b * 64 + c) div 4)]"
| "decodeQuanta [a, b] = Some [of_nat ((a * 64 + b) div 16)]"
| "decodeQuanta [a] = None"
| "decodeQuanta [] = Some []"

definition RawURLEncoding_Decode :: "string \<Rightarrow> byte list option" where
  "RawURLEncoding_Decode src =
     (case sextets src of None \<Rightarrow> None | Some vs \<Rightarrow> decodeQuanta vs)"

text \<open>
  \<^verbatim>\<open>decodeSegment\<close>. The source decodes in place (destination and source are the
  same array); the decoder never writes at or beyond the position it reads
  next, so the result is that of decoding into a fresh buffer.
\<close>

definition decodeSegment :: "string \<Rightarrow> error + byte list" where
  "decodeSegment segmentString =
     (if segmentString = [] then Inl EmptySegmentString
      else (case RawURLEncoding_Decode segmentString of
              None \<Rightarrow> Inl FailedToDecodeSegment
            | Some decoded \<Rightarrow> Inr decoded))"

text \<open>\<^verbatim>\<open>getSegmentType\<close>: the top three bits of the first byte.\<close>

definition getSegmentType :: "byte list \<Rightarrow> error + byte" where
  "getSegmentType d =
     (if length d < 1 then Inl SegmentTooShort else Inr (drop_bit 5 (d ! 0)))"

text \<open>\<^verbatim>\<open>parseDisclosedVendorsSegment\<close>.\<close>

definition parseDisclosedVendorsSegment :: "byte list \<Rightarrow> error + vendorConsentsResolver" where
  "parseDisclosedVendorsSegment d =
     (if length d = 0 then Inl DataIsEmpty
      else if length d < 3 then Inl (SegmentTooShortBytes (length d))
      else
        (case ParseByte8 d 0 of
           Inl err \<Rightarrow> Inl (ParseSegmentType err)
         | Inr segmentType0 \<Rightarrow>
        (let segmentType = drop_bit 5 segmentType0 in
         if segmentType \<noteq> SegmentTypeDisclosedVendors then Inl (ExpectedSegmentType1 segmentType)
         else
        (case ParseUInt16 d 3 of
           Inl err \<Rightarrow> Inl (ParseMaxVendorId err)
         | Inr maxVendorID \<Rightarrow>
        (case isSet d 19 of
           Inl err \<Rightarrow> Inl err
         | Inr isRangeEncoding \<Rightarrow>
        (let tempMetadata = ConsentMetadata_of_data d in
         if isRangeEncoding then
           (case parseRangeSection tempMetadata maxVendorID 20 of
              Inl err \<Rightarrow> Inl (ParseRangeSectionFailed err)
            | Inr (rangeSection, uu) \<Rightarrow> Inr rangeSection)
         else
           (case parseBitField tempMetadata maxVendorID 20 of
              Inl err \<Rightarrow> Inl (ParseBitFieldFailed err)
            | Inr (bitField, uu) \<Rightarrow> Inr bitField)))))))"

text \<open>
  \<^verbatim>\<open>strings.Split\<close> with a one-character separator: the pieces between the
  separators, in order; a string without separator, the empty one too, is the
  single piece.
\<close>

fun Split :: "string \<Rightarrow> char \<Rightarrow> string list" where
  "Split [] sep = [[]]"
| "Split (c # cs) sep =
     (if c = sep then [] # Split cs sep
      else (case Split cs sep of
              [] \<Rightarrow> [[c]]
            | piece # pieces \<Rightarrow> (c # piece) # pieces))"

text \<open>
  The loop of \<^verbatim>\<open>parseCoreAndDisclosedVendors\<close> over \<^verbatim>\<open>segments[1:]\<close>: an empty
  segment is skipped, a failing one ends the parse with its error, the first
  segment of type 1 is decoded and ends the loop (\<^verbatim>\<open>break\<close>).
\<close>

fun scanSegments :: "ConsentMetadata \<Rightarrow> string list \<Rightarrow> error + ConsentMetadata" where
  "scanSegments metadata [] = Inr metadata"
| "scanSegments metadata (segment # rest) =
     (if segment = [] then scanSegments metadata rest
      else
        (case decodeSegment segment of
           Inl err \<Rightarrow> Inl err
         | Inr decoded \<Rightarrow>
        (case getSegmentType decoded of
           Inl err \<Rightarrow> Inl err
         | Inr segmentType \<Rightarrow>
             if segmentType = SegmentTypeDisclosedVendors then
               (case parseDisclosedVendorsSegment decoded of
                  Inl err \<Rightarrow> Inl (FailedToParseDisclosedVendors err)
                | Inr disclosedVendors' \<Rightarrow>
                    Inr (metadata\<lparr>disclosedVendors := Some disclosedVendors',
                                  hasDisclosedVendors := True\<rparr>))
             else scanSegments metadata rest)))"

text \<open>
  \<^verbatim>\<open>parseCoreAndDisclosedVendors\<close>. \<^verbatim>\<open>segments[0]\<close> exists for every input, as
  \<^verbatim>\<open>strings.Split\<close> returns at least one piece; the model keeps the index failure
  for the empty list as an error.
\<close>

definition parseCoreAndDisclosedVendors :: "string \<Rightarrow> error + ConsentMetadata" where
  "parseCoreAndDisclosedVendors consent =
     (case Split consent consentStringTCF2Separator of
        [] \<Rightarrow> Inl OutOfRange
      | segment0 # segments \<Rightarrow>
          (case decodeSegment segment0 of
             Inl err \<Rightarrow> Inl err
           | Inr coreSegmentDecoded \<Rightarrow>
               (case Parse coreSegmentDecoded of
                  Inl err \<Rightarrow> Inl err
                | Inr metadata \<Rightarrow> scanSegments metadata segments)))"

text \<open>\<^verbatim>\<open>ParseString\<close>.\<close>

definition ParseString :: "string \<Rightarrow> error + ConsentMetadata" where
  "ParseString consent =
     (if consent = [] then Inl ErrEmptyDecodedConsent
      else (case parseCoreAndDisclosedVendors consent of
              Inl err \<Rightarrow> Inl err
            | Inr consentMeta \<Rightarrow> Inr consentMeta))"

section \<open>Query facade\<close>

text \<open>
  Modelled from the spec: the methods \<^verbatim>\<open>VendorDisclosed\<close>,
  \<^verbatim>\<open>VendorDisclosedMaxVendorId\<close> and \<^verbatim>\<open>HasDisclosedVendors\<close> of
  \<^verbatim>\<open>ConsentMetadata\<close>, declared by the interface \<^verbatim>\<open>api.VendorConsents\<close> and
  implemented outside the sources. \<^verbatim>\<open>VendorDisclosed\<close> is false when no segment
  was recorded and membership in the recorded set otherwise; the maximum is 0
  when absent; \<^verbatim>\<open>HasDisclosedVendors\<close> is the flag the parser sets.
\<close>

definition VendorDisclosed :: "ConsentMetadata \<Rightarrow> uint16 \<Rightarrow> bool" where
  "VendorDisclosed c vid =
     (case disclosedVendors c of None \<Rightarrow> False | Some vs \<Rightarrow> resolverContains vs vid)"

definition VendorDisclosedMaxVendorId :: "ConsentMetadata \<Rightarrow> uint16" where
  "VendorDisclosedMaxVendorId c =
     (case disclosedVendors c of None \<Rightarrow> 0 | Some vs \<Rightarrow> resolverMaxID vs)"

definition HasDisclosedVendors :: "ConsentMetadata \<Rightarrow> bool" where
  "HasDisclosedVendors c = hasDisclosedVendors c"

section \<open>Sample inputs\<close>

text \<open>
  The fixture of the package's tests: a core string, its bytes and the value
  \<^verbatim>\<open>Parse\<close> gives for them.
\<close>

abbreviation sampleCore :: string where
  "sampleCore \<equiv> ''COyiILmOyiILmADACHENAPCAAAAAAAAAAAAAE5QBgALgAqgD8AQACSwEygJyAAAAAA''"

abbreviation sampleCoreBytes :: "byte list" where
  "sampleCoreBytes \<equiv>
     [8, 236, 162, 32, 185, 142, 202, 34, 11, 152, 0, 192, 8, 113, 13, 0, 240, 128, 0, 0,
      0, 0, 0, 0, 0, 0, 0, 19, 148, 1, 128, 2, 224, 2, 168, 3, 240, 4, 0, 9, 44, 4, 202,
      2, 114, 0, 0, 0, 0]"

abbreviation sampleCoreMetadata :: ConsentMetadata where
  "sampleCoreMetadata \<equiv>
     \<lparr>data = sampleCoreBytes,
      vendorConsents =
        Some (RangeSection
                [RangeConsent 23 23, RangeConsent 42 42, RangeConsent 126 128,
                 RangeConsent 587 587, RangeConsent 613 613, RangeConsent 626 626] 9),
      vendorLegitimateInterests = Some (BitField [] 0),
      vendorLegitimateInterestStart = 377, pubRestrictionsStart = 377,
      publisherRestrictions = Some [], disclosedVendors = None,
      hasDisclosedVendors = False\<rparr>"

section \<open>Splitting and scanning\<close>

lemma Split_not_Nil: "Split s sep \<noteq> []"
  by (induction s) (auto split: list.splits)

lemma Split_without_sep: "sep \<notin> set a \<Longrightarrow> Split a sep = [a]"
  by (induction a) auto

lemma Split_append_sep: "sep \<notin> set a \<Longrightarrow> Split (a @ sep # b) sep = a # Split b sep"
  by (induction a) auto

lemma Split_snoc_sep: "Split (s @ [sep]) sep = Split s sep @ [[]]"
proof (induction s)
  case Nil
  show ?case by simp
next
  case (Cons c s)
  obtain p ps where "Split s sep = p # ps"
    using Split_not_Nil [of s sep] by (cases "Split s sep") auto
  with Cons show ?case by simp
qed

lemma Split_leading_sep: "Split (sep # s) sep = [] # Split s sep"
  by simp

lemma decodeSegment_Nil: "decodeSegment [] = Inl EmptySegmentString"
  by (simp add: decodeSegment_def)

lemma decodeSegment_Inr_not_Nil: "decodeSegment seg = Inr d \<Longrightarrow> seg \<noteq> []"
  by (auto simp: decodeSegment_def)

lemma scanSegments_snoc_empty: "scanSegments m (xs @ [[]]) = scanSegments m xs"
  by (induction xs) (auto split: sum.splits)

lemma sum_case_rewrap: "(case x of Inl err \<Rightarrow> Inl err | Inr v \<Rightarrow> Inr v) = x"
  by (cases x) simp_all

lemma parseCoreAndDisclosedVendors_segments:
  assumes "Split consent consentStringTCF2Separator = core # segs"
    and "decodeSegment core = Inr cb"
    and "Parse cb = Inr m"
  shows "parseCoreAndDisclosedVendors consent = scanSegments m segs"
  using assms by (simp add: parseCoreAndDisclosedVendors_def)

lemma ParseString_segments:
  assumes "Split consent consentStringTCF2Separator = core # segs"
    and "decodeSegment core = Inr cb"
    and "Parse cb = Inr m"
  shows "ParseString consent = scanSegments m segs"
proof -
  have "consent \<noteq> []"
  proof
    assume "consent = []"
    with assms(1) have "core = []" by simp
    with assms(2) show False by (simp add: decodeSegment_Nil)
  qed
  then show ?thesis
    using parseCoreAndDisclosedVendors_segments [OF assms]
    by (simp add: ParseString_def sum_case_rewrap)
qed

lemma Parse_leaves_disclosed_unset:
  assumes "Parse d = Inr m"
  shows "disclosedVendors m = None \<and> \<not> hasDisclosedVendors m"
  using assms unfolding Parse_def parseMetadata_def ConsentMetadata_of_data_def Let_def
  by (auto split: sum.splits if_splits prod.splits)

lemma scanSegments_disclosed:
  assumes "decodeSegment seg = Inr d"
    and "getSegmentType d = Inr SegmentTypeDisclosedVendors"
    and "parseDisclosedVendorsSegment d = Inr vs"
  shows "scanSegments m (seg # rest) =
           Inr (m\<lparr>disclosedVendors := Some vs, hasDisclosedVendors := True\<rparr>)"
  using assms decodeSegment_Inr_not_Nil [OF assms(1)] by simp

lemma scanSegments_passed_over:
  assumes "seg = [] \<or>
           (\<exists>d t. decodeSegment seg = Inr d \<and> getSegmentType d = Inr t \<and>
                  t \<noteq> SegmentTypeDisclosedVendors)"
  shows "scanSegments m (seg # rest) = scanSegments m rest"
  using assms by auto


lemma scanSegments_bad_segment:
  assumes "bad \<noteq> []"
    and "isl (decodeSegment bad) \<or> (\<exists>d. decodeSegment bad = Inr d \<and> isl (getSegmentType d))"
  shows "isl (scanSegments m (bad # rest))"
  using assms by (auto split: sum.splits)

lemma scanSegments_fails_before_disclosed:
  assumes "bad \<noteq> []"
    and "isl (decodeSegment bad) \<or> (\<exists>d. decodeSegment bad = Inr d \<and> isl (getSegmentType d))"
    and "\<forall>seg\<in>set pre. \<forall>d. decodeSegment seg = Inr d \<longrightarrow>
           getSegmentType d = Inr SegmentTypeDisclosedVendors \<longrightarrow>
           isl (parseDisclosedVendorsSegment d)"
  shows "isl (scanSegments m (pre @ bad # rest))"
  using assms(3)
proof (induction pre)
  case Nil
  show ?case using scanSegments_bad_segment [OF assms(1,2)] by simp
next
  case (Cons seg pre)
  then have IH: "isl (scanSegments m (pre @ bad # rest))" by simp
  show ?case
  proof (cases "seg = []")
    case True
    with IH show ?thesis by simp
  next
    case False
    show ?thesis
    proof (cases "decodeSegment seg")
      case (Inl e)
      with False show ?thesis by simp
    next
      case (Inr d)
      note dec = this
      show ?thesis
      proof (cases "getSegmentType d")
        case (Inl e)
        with False dec show ?thesis by simp
      next
        case (Inr t)
        show ?thesis
        proof (cases "t = SegmentTypeDisclosedVendors")
          case True
          with Cons.prems dec Inr have "isl (parseDisclosedVendorsSegment d)" by simp
          with False dec Inr True show ?thesis by (auto split: sum.splits)
        next
          case ne: False
          with False dec Inr IH show ?thesis by simp
        qed
      qed
    qed
  qed
qed

section \<open>The bit reader on whole bytes\<close>

lemma bitsValue_horner:
  "bitsValue bs acc = acc * 2 ^ length bs + horner_sum of_bool 2 (rev bs)"
  by (induction bs arbitrary: acc) (simp_all add: horner_sum_append algebra_simps)

lemma upt_0_8: "[0..<8] = [0, 1, 2, 3, 4, 5, 6, 7::nat]"
  by (simp add: upt_rec)

lemma byte_bits_value:
  fixes w :: byte
  shows "of_nat (bitsValue (map (\<lambda>i. bit w (7 - i)) [0..<8]) 0) = w"
proof -
  have "rev (map (\<lambda>i. bit w (7 - i)) [0..<8]) = map (bit (unat w)) [0..<8]"
    by (simp add: upt_0_8 bit_unsigned_iff)
  then have "bitsValue (map (\<lambda>i. bit w (7 - i)) [0..<8]) 0 = take_bit 8 (unat w)"
    by (simp add: bitsValue_horner horner_sum_bit_eq_take_bit)
  also have "\<dots> = unat w"
    using unsigned_less [of w, where 'a = nat] by (simp add: take_bit_nat_eq_self)
  finally show ?thesis by simp
qed

lemma ParseByte8_first:
  assumes "d \<noteq> []"
  shows "ParseByte8 d 0 = Inr (d ! 0)"
proof -
  have a: "ParseUInt 8 d 0 = Inr (bitsValue (map (bitAt d) [0..<8]) 0)"
    using assms by (simp add: ParseUInt_def)
  have b: "map (bitAt d) [0..<8] = map (\<lambda>i. bit (d ! 0) (7 - i)) [0..<8]"
    by (simp add: bitAt_def upt_0_8)
  show ?thesis
    unfolding ParseByte8_def a b by (simp add: byte_bits_value)
qed

section \<open>Evaluation of the sample inputs\<close>

lemmas decode_simps = decodeSegment_def RawURLEncoding_Decode_def decodeMap_def

lemma sampleCore_decoded: "decodeSegment sampleCore = Inr sampleCoreBytes"
  by (simp add: decode_simps)

lemma sampleCore_parsed: "Parse sampleCoreBytes = Inr sampleCoreMetadata"
  by code_simp

lemma sampleCore_no_separator: "consentStringTCF2Separator \<notin> set sampleCore"
  by (simp add: consentStringTCF2Separator_def)

lemma sampleCore_VendorListVersion: "VendorListVersion sampleCoreMetadata = Inr 15"
  by code_simp

lemma disclosed_1_3_5_decoded: "decodeSegment ''IAFKgA'' = Inr [0x20, 0x01, 0x4a, 0x80]"
  by (simp add: decode_simps)

lemma disclosed_1_3_5_type:
  "getSegmentType [0x20, 0x01, 0x4a, 0x80] = Inr SegmentTypeDisclosedVendors"
  by code_simp

lemma disclosed_1_3_5_parsed:
  "parseDisclosedVendorsSegment [0x20, 0x01, 0x4a, 0x80] =
     Inr (BitField [True, False, True, False, True, False, False, False, False, False] 10)"
  by code_simp

lemma disclosed_all_5_decoded: "decodeSegment ''IACvgA'' = Inr [0x20, 0x00, 0xaf, 0x80]"
  by (simp add: decode_simps)

lemma disclosed_all_5_type:
  "getSegmentType [0x20, 0x00, 0xaf, 0x80] = Inr SegmentTypeDisclosedVendors"
  by code_simp

lemma disclosed_all_5_parsed:
  "parseDisclosedVendorsSegment [0x20, 0x00, 0xaf, 0x80] =
     Inr (BitField [True, True, True, True, True] 5)"
  by code_simp

lemma publisherTC_decoded: "decodeSegment ''YAAA'' = Inr [0x60, 0x00, 0x00]"
  by (simp add: decode_simps)

lemma publisherTC_type: "getSegmentType [0x60, 0x00, 0x00] = Inr SegmentTypePublisherTC"
  by code_simp

lemma publisherTC_not_disclosed: "SegmentTypePublisherTC \<noteq> SegmentTypeDisclosedVendors"
  by (simp add: SegmentTypePublisherTC_def SegmentTypeDisclosedVendors_def)

lemma invalid_segment_decoded: "decodeSegment ''!'' = Inl FailedToDecodeSegment"
  by (simp add: decode_simps)

section \<open>Properties of the parser\<close>

text \<open>
  C10. Every consent string that begins with the separator \<^verbatim>\<open>.\<close> is rejected:
  its first segment is empty, it is taken as the core string, and
  \<^verbatim>\<open>decodeSegment\<close> rejects an empty segment string. (Empty segments after the
  first are skipped instead.)
\<close>

theorem ParseString_leading_separator:
  "ParseString (CHR ''.'' # s) = Inl EmptySegmentString"
  by (simp add: ParseString_def parseCoreAndDisclosedVendors_def
      consentStringTCF2Separator_def decodeSegment_Nil)

text \<open>
  C8. For every consent string \<open>s\<close>, \<^verbatim>\<open>ParseString\<close> of \<open>s\<close> followed by one
  separator and of \<open>s\<close> itself either both fail or both succeed with the same
  result, hence with results that agree on every accessor: the trailing empty
  segment is skipped. This holds for every \<open>s\<close>, in particular for those not
  ending in a separator.
\<close>

theorem ParseString_trailing_separator:
  "(isl (ParseString (s @ ''.'')) \<and> isl (ParseString s)) \<or>
   (\<exists>r. ParseString (s @ ''.'') = Inr r \<and> ParseString s = Inr r)"
proof (cases "s = []")
  case True
  then show ?thesis
    by (simp add: ParseString_def parseCoreAndDisclosedVendors_def
        consentStringTCF2Separator_def decodeSegment_Nil)
next
  case False
  obtain core segs where split: "Split s consentStringTCF2Separator = core # segs"
    using Split_not_Nil [of s consentStringTCF2Separator]
    by (cases "Split s consentStringTCF2Separator") auto
  have split': "Split (s @ ''.'') consentStringTCF2Separator = core # (segs @ [[]])"
    using Split_snoc_sep [of s consentStringTCF2Separator] split
    by (simp add: consentStringTCF2Separator_def)
  have "parseCoreAndDisclosedVendors (s @ ''.'') = parseCoreAndDisclosedVendors s"
    unfolding parseCoreAndDisclosedVendors_def split split'
    by (simp add: scanSegments_snoc_empty split: sum.splits)
  with False have "ParseString (s @ ''.'') = ParseString s"
    by (simp add: ParseString_def)
  then show ?thesis by (cases "ParseString s") simp_all
qed

text \<open>
  C3. Whenever \<^verbatim>\<open>ParseString\<close> accepts a consent string that consists of a core
  string only (no separator), \<^verbatim>\<open>HasDisclosedVendors\<close> of the result is false and
  \<^verbatim>\<open>VendorDisclosed\<close> is false for every 16-bit vendor ID, 0 and the IDs above
  the core string's maximum included.
\<close>

theorem core_only_nothing_disclosed:
  assumes "consentStringTCF2Separator \<notin> set consent"
    and "ParseString consent = Inr r"
  shows "HasDisclosedVendors r = False \<and> (\<forall>vid. VendorDisclosed r vid = False)"
proof -
  have "Split consent consentStringTCF2Separator = [consent]"
    using assms(1) by (rule Split_without_sep)
  then obtain cb where "decodeSegment consent = Inr cb" and "Parse cb = Inr r"
    using assms(2)
    by (auto simp: ParseString_def parseCoreAndDisclosedVendors_def
        split: if_splits sum.splits)
  then have "disclosedVendors r = None \<and> \<not> hasDisclosedVendors r"
    using Parse_leaves_disclosed_unset by blast
  then show ?thesis
    by (simp add: HasDisclosedVendors_def VendorDisclosed_def)
qed

theorem core_only_nothing_disclosed_witness:
  "ParseString sampleCore = Inr sampleCoreMetadata \<and>
   HasDisclosedVendors sampleCoreMetadata = False \<and>
   VendorDisclosed sampleCoreMetadata 0 = False \<and>
   VendorDisclosed sampleCoreMetadata 1 = False \<and>
   VendorDisclosed sampleCoreMetadata 65535 = False"
proof -
  have parsed: "ParseString sampleCore = Inr sampleCoreMetadata"
    using ParseString_segments
      [OF Split_without_sep [OF sampleCore_no_separator] sampleCore_decoded sampleCore_parsed]
    by simp
  show ?thesis
    using core_only_nothing_disclosed [OF sampleCore_no_separator parsed] parsed by simp
qed

text \<open>
  C9. \<^verbatim>\<open>ParseString\<close> accepts the sample core string, and
  \<^verbatim>\<open>VendorListVersion\<close> of the result is 15.
\<close>

theorem sample_VendorListVersion:
  "\<exists>r. ParseString sampleCore = Inr r \<and> VendorListVersion r = Inr 15"
proof -
  have "ParseString sampleCore = Inr sampleCoreMetadata"
    using ParseString_segments
      [OF Split_without_sep [OF sampleCore_no_separator] sampleCore_decoded sampleCore_parsed]
    by simp
  then show ?thesis
    using sampleCore_VendorListVersion by simp
qed

text \<open>
  C1, as the source has it. Let the core segment parse and let a later
  non-empty segment fail base64url decoding or decode to too few bytes for a
  type tag. If no segment before it is a type-1 segment that
  \<^verbatim>\<open>parseDisclosedVendorsSegment\<close> accepts, \<^verbatim>\<open>ParseString\<close> returns an error and no
  result. (The loop ends at the first accepted type-1 segment, so segments
  after it are never decoded.)
\<close>

theorem later_bad_segment_fails:
  assumes "Split consent consentStringTCF2Separator = core # pre @ bad # rest"
    and "decodeSegment core = Inr cb"
    and "Parse cb = Inr m"
    and "bad \<noteq> []"
    and "isl (decodeSegment bad) \<or> (\<exists>d. decodeSegment bad = Inr d \<and> isl (getSegmentType d))"
    and "\<forall>seg\<in>set pre. \<forall>d. decodeSegment seg = Inr d \<longrightarrow>
           getSegmentType d = Inr SegmentTypeDisclosedVendors \<longrightarrow>
           isl (parseDisclosedVendorsSegment d)"
  shows "isl (ParseString consent)"
  using ParseString_segments [OF assms(1,2,3)]
    scanSegments_fails_before_disclosed [OF assms(4,5,6)]
  by simp

theorem later_bad_segment_fails_witness:
  "isl (ParseString (sampleCore @ ''.YAAA.!.IAFKgA''))"
proof -
  have split: "Split (sampleCore @ ''.YAAA.!.IAFKgA'') consentStringTCF2Separator =
                 sampleCore # [''YAAA''] @ ''!'' # [''IAFKgA'']"
    by (simp add: consentStringTCF2Separator_def)
  have bad: "isl (decodeSegment ''!'') \<or>
             (\<exists>d. decodeSegment ''!'' = Inr d \<and> isl (getSegmentType d))"
    by (simp add: invalid_segment_decoded)
  have pre: "\<forall>seg\<in>set [''YAAA'']. \<forall>d. decodeSegment seg = Inr d \<longrightarrow>
               getSegmentType d = Inr SegmentTypeDisclosedVendors \<longrightarrow>
               isl (parseDisclosedVendorsSegment d)"
    using publisherTC_not_disclosed by (simp add: publisherTC_decoded publisherTC_type)
  show ?thesis
    by (rule later_bad_segment_fails [OF split sampleCore_decoded sampleCore_parsed _ bad pre])
      simp
qed

text \<open>
  C1, as stated, fails: in the string below the core segment parses, the last
  segment \<^verbatim>\<open>!\<close> is not empty and fails base64url decoding, and
  \<^verbatim>\<open>ParseString\<close> still succeeds, because the accepted Disclosed-Vendors segment
  before it ends the loop.
\<close>

theorem later_bad_segment_counterexample:
  "Split (sampleCore @ ''.IAFKgA.!'') consentStringTCF2Separator =
     [sampleCore, ''IAFKgA'', ''!''] \<and>
   decodeSegment sampleCore = Inr sampleCoreBytes \<and>
   Parse sampleCoreBytes = Inr sampleCoreMetadata \<and>
   ''!'' \<noteq> [] \<and>
   decodeSegment ''!'' = Inl FailedToDecodeSegment \<and>
   ParseString (sampleCore @ ''.IAFKgA.!'') =
     Inr (sampleCoreMetadata
            \<lparr>disclosedVendors :=
               Some (BitField [True, False, True, False, True, False, False, False, False, False]
                       10),
             hasDisclosedVendors := True\<rparr>)"
proof -
  have split: "Split (sampleCore @ ''.IAFKgA.!'') consentStringTCF2Separator =
                 [sampleCore, ''IAFKgA'', ''!'']"
    by (simp add: consentStringTCF2Separator_def)
  have "ParseString (sampleCore @ ''.IAFKgA.!'') =
          scanSegments sampleCoreMetadata [''IAFKgA'', ''!'']"
    by (rule ParseString_segments [OF split sampleCore_decoded sampleCore_parsed])
  also have "\<dots> = Inr (sampleCoreMetadata
            \<lparr>disclosedVendors :=
               Some (BitField [True, False, True, False, True, False, False, False, False, False]
                       10),
             hasDisclosedVendors := True\<rparr>)"
    by (rule scanSegments_disclosed
        [OF disclosed_1_3_5_decoded disclosed_1_3_5_type disclosed_1_3_5_parsed])
  finally show ?thesis
    using split sampleCore_decoded sampleCore_parsed invalid_segment_decoded by simp
qed

text \<open>
  C2. Take a core segment that parses, a Disclosed-Vendors segment (type tag 1,
  accepted by its decoder) and a Publisher-TC segment (type tag 3), none
  containing the separator. The two consent strings that put the two trailing
  segments in either order both parse successfully, and the results have the
  same \<^verbatim>\<open>VendorDisclosed\<close> for every vendor ID (membership in the set decoded
  from the Disclosed-Vendors segment), the same \<^verbatim>\<open>VendorDisclosedMaxVendorId\<close>
  and the same \<^verbatim>\<open>HasDisclosedVendors\<close>; the two results are equal.
\<close>

theorem trailing_segments_either_order:
  assumes "consentStringTCF2Separator \<notin> set core"
    and "decodeSegment core = Inr cb"
    and "Parse cb = Inr m"
    and "consentStringTCF2Separator \<notin> set dv"
    and "decodeSegment dv = Inr d"
    and "getSegmentType d = Inr SegmentTypeDisclosedVendors"
    and "parseDisclosedVendorsSegment d = Inr vs"
    and "consentStringTCF2Separator \<notin> set ptc"
    and "decodeSegment ptc = Inr p"
    and "getSegmentType p = Inr SegmentTypePublisherTC"
  shows "\<exists>r1 r2.
           ParseString (core @ ''.'' @ dv @ ''.'' @ ptc) = Inr r1 \<and>
           ParseString (core @ ''.'' @ ptc @ ''.'' @ dv) = Inr r2 \<and>
           r1 = r2 \<and>
           (\<forall>vid. VendorDisclosed r1 vid = VendorDisclosed r2 vid) \<and>
           (\<forall>vid. VendorDisclosed r1 vid = resolverContains vs vid) \<and>
           VendorDisclosedMaxVendorId r1 = VendorDisclosedMaxVendorId r2 \<and>
           HasDisclosedVendors r1 = HasDisclosedVendors r2"
proof -
  let ?r = "m\<lparr>disclosedVendors := Some vs, hasDisclosedVendors := True\<rparr>"
  have split1: "Split (core @ ''.'' @ dv @ ''.'' @ ptc) consentStringTCF2Separator =
                  core # [dv, ptc]"
    using assms(1,4,8)
    by (simp add: Split_append_sep [where sep = "CHR ''.''"]
        Split_without_sep consentStringTCF2Separator_def)
  have split2: "Split (core @ ''.'' @ ptc @ ''.'' @ dv) consentStringTCF2Separator =
                  core # [ptc, dv]"
    using assms(1,4,8)
    by (simp add: Split_append_sep [where sep = "CHR ''.''"]
        Split_without_sep consentStringTCF2Separator_def)
  have skip: "scanSegments m [ptc, dv] = scanSegments m [dv]"
    using assms(9,10) publisherTC_not_disclosed
    by (intro scanSegments_passed_over) simp
  have r1: "ParseString (core @ ''.'' @ dv @ ''.'' @ ptc) = Inr ?r"
    using ParseString_segments [OF split1 assms(2,3)]
      scanSegments_disclosed [OF assms(5,6,7)]
    by simp
  have r2: "ParseString (core @ ''.'' @ ptc @ ''.'' @ dv) = Inr ?r"
    using ParseString_segments [OF split2 assms(2,3)] skip
      scanSegments_disclosed [OF assms(5,6,7)]
    by simp
  have "\<forall>vid. VendorDisclosed ?r vid = resolverContains vs vid"
    by (simp add: VendorDisclosed_def)
  with r1 r2 show ?thesis by blast
qed

theorem trailing_segments_either_order_witness:
  "\<exists>r1 r2.
     ParseString (sampleCore @ ''.'' @ ''IAFKgA'' @ ''.'' @ ''YAAA'') = Inr r1 \<and>
     ParseString (sampleCore @ ''.'' @ ''YAAA'' @ ''.'' @ ''IAFKgA'') = Inr r2 \<and>
     r1 = r2 \<and>
     (\<forall>vid. VendorDisclosed r1 vid = VendorDisclosed r2 vid) \<and>
     (\<forall>vid. VendorDisclosed r1 vid =
        resolverContains
          (BitField [True, False, True, False, True, False, False, False, False, False] 10) vid) \<and>
     VendorDisclosedMaxVendorId r1 = VendorDisclosedMaxVendorId r2 \<and>
     HasDisclosedVendors r1 = HasDisclosedVendors r2"
proof -
  have dv: "consentStringTCF2Separator \<notin> set ''IAFKgA''"
    by (simp add: consentStringTCF2Separator_def)
  have ptc: "consentStringTCF2Separator \<notin> set ''YAAA''"
    by (simp add: consentStringTCF2Separator_def)
  show ?thesis
    by (rule trailing_segments_either_order
        [OF sampleCore_no_separator sampleCore_decoded sampleCore_parsed
          dv disclosed_1_3_5_decoded disclosed_1_3_5_type disclosed_1_3_5_parsed
          ptc publisherTC_decoded publisherTC_type])
qed



text \<open>
  C7. A core segment that parses, followed by a Disclosed-Vendors segment whose
  decoded bytes are \<^verbatim>\<open>0x20, 0x01, 0x4a, 0x80\<close> (type 1, maximum vendor ID 10,
  BitField), is parsed to a result with \<^verbatim>\<open>VendorDisclosed\<close> true for vendors 1,
  3 and 5, false for 2, 4 and 6, and \<^verbatim>\<open>HasDisclosedVendors\<close> true.
\<close>

theorem disclosed_vendors_1_3_5:
  assumes "consentStringTCF2Separator \<notin> set core"
    and "decodeSegment core = Inr cb"
    and "Parse cb = Inr m"
    and "consentStringTCF2Separator \<notin> set dv"
    and "decodeSegment dv = Inr [0x20, 0x01, 0x4a, 0x80]"
  shows "\<exists>r. ParseString (core @ ''.'' @ dv) = Inr r \<and>
              VendorDisclosed r 1 = True \<and>
              VendorDisclosed r 2 = False \<and>
              VendorDisclosed r 3 = True \<and>
              VendorDisclosed r 4 = False \<and>
              VendorDisclosed r 5 = True \<and>
              VendorDisclosed r 6 = False \<and>
              HasDisclosedVendors r = True"
proof -
  let ?vs = "BitField [True, False, True, False, True, False, False, False, False, False] 10"
  let ?r = "m\<lparr>disclosedVendors := Some ?vs, hasDisclosedVendors := True\<rparr>"
  have split: "Split (core @ ''.'' @ dv) consentStringTCF2Separator = core # [dv]"
    using assms(1,4)
    by (simp add: Split_append_sep [where sep = "CHR ''.''"]
        Split_without_sep consentStringTCF2Separator_def)
  have parsed: "ParseString (core @ ''.'' @ dv) = Inr ?r"
    using ParseString_segments [OF split assms(2,3)]
      scanSegments_disclosed [OF assms(5) disclosed_1_3_5_type disclosed_1_3_5_parsed]
    by simp
  have "resolverContains ?vs 1 = True" "resolverContains ?vs 2 = False"
    "resolverContains ?vs 3 = True" "resolverContains ?vs 4 = False"
    "resolverContains ?vs 5 = True" "resolverContains ?vs 6 = False"
    by code_simp+
  with parsed show ?thesis
    by (simp add: VendorDisclosed_def HasDisclosedVendors_def)
qed

theorem disclosed_vendors_1_3_5_witness:
  "\<exists>r. ParseString (sampleCore @ ''.'' @ ''IAFKgA'') = Inr r \<and>
       VendorDisclosed r 1 = True \<and>
       VendorDisclosed r 2 = False \<and>
       VendorDisclosed r 3 = True \<and>
       VendorDisclosed r 4 = False \<and>
       VendorDisclosed r 5 = True \<and>
       VendorDisclosed r 6 = False \<and>
       HasDisclosedVendors r = True"
proof -
  have dv: "consentStringTCF2Separator \<notin> set ''IAFKgA''"
    by (simp add: consentStringTCF2Separator_def)
  show ?thesis
    by (rule disclosed_vendors_1_3_5
        [OF sampleCore_no_separator sampleCore_decoded sampleCore_parsed
          dv disclosed_1_3_5_decoded])
qed

text \<open>
  C5. For every buffer that \<^verbatim>\<open>Parse\<close> accepts, the vendor-consent set of the
  result is the one decoded at bit 230 with the header's maximum vendor ID, by
  \<^verbatim>\<open>parseRangeSection\<close> (a RangeSection) when bit 229 is 1 and by
  \<^verbatim>\<open>parseBitField\<close> (a BitField of the bits from 230 on) when bit 229 is 0.
\<close>

theorem Parse_vendor_consent_encoding:
  assumes "Parse d = Inr m"
  shows "\<exists>md mv vs n.
           parseMetadata d = Inr md \<and> MaxVendorID md = Inr mv \<and>
           vendorConsents m = Some vs \<and>
           (isSet d 229 = Inr True \<and> parseRangeSection md mv 230 = Inr (vs, n) \<and>
              (\<exists>rs. vs = RangeSection rs mv) \<or>
            isSet d 229 = Inr False \<and> parseBitField md mv 230 = Inr (vs, n) \<and>
              vs = BitField (map (bitAt d) [230..<230 + unat mv]) mv)"
proof -
  obtain md where md: "parseMetadata d = Inr md"
    using assms by (cases "parseMetadata d") (simp_all add: Parse_def)
  then have data_md: "data md = d"
    by (auto simp: parseMetadata_def ConsentMetadata_of_data_def split: if_splits)
  obtain isRange where bit: "isSet d 229 = Inr isRange"
    using assms md by (cases "isSet d 229") (simp_all add: Parse_def)
  obtain mv where mv: "MaxVendorID md = Inr mv"
    using assms md bit by (cases "MaxVendorID md") (simp_all add: Parse_def)
  let ?call = "if isRange then parseRangeSection md mv 230 else parseBitField md mv 230"
  obtain vs n where call: "?call = Inr (vs, n)"
    using assms md bit mv by (cases ?call) (auto simp: Parse_def)
  have vc: "vendorConsents m = Some vs"
    using assms md bit mv call
    by (auto simp: Parse_def Let_def split: sum.splits if_splits prod.splits)
  show ?thesis
  proof (cases isRange)
    case True
    with call have "\<exists>rs. vs = RangeSection rs mv"
      by (auto simp: parseRangeSection_def split: sum.splits prod.splits)
    with True md mv vc bit call show ?thesis by auto
  next
    case False
    with call data_md have "vs = BitField (map (bitAt d) [230..<230 + unat mv]) mv"
      by (auto simp: parseBitField_def split: if_splits)
    with False md mv vc bit call show ?thesis by auto
  qed
qed

theorem Parse_vendor_consent_encoding_witness:
  "isSet sampleCoreBytes 229 = Inr True \<and>
   (\<exists>md mv vs n.
      parseMetadata sampleCoreBytes = Inr md \<and> MaxVendorID md = Inr mv \<and>
      vendorConsents sampleCoreMetadata = Some vs \<and>
      parseRangeSection md mv 230 = Inr (vs, n) \<and>
      (\<exists>rs. vs = RangeSection rs mv))"
proof -
  have bit: "isSet sampleCoreBytes 229 = Inr True"
    by code_simp
  show ?thesis
    using Parse_vendor_consent_encoding [OF sampleCore_parsed] bit by auto
qed

text \<open>
  C6. The Disclosed-Vendors segment decoder fails on every buffer of fewer than
  3 bytes and on every buffer whose first byte has top three bits other than 1.
  On every other buffer the 16-bit maximum vendor ID at bit 3 is read, and the
  result is that of \<^verbatim>\<open>parseRangeSection\<close> at bit 20 when bit 19 is set and of
  \<^verbatim>\<open>parseBitField\<close> at bit 20 when it is not.
\<close>

theorem parseDisclosedVendorsSegment_cases:
  "(length d < 3 \<longrightarrow> isl (parseDisclosedVendorsSegment d)) \<and>
   (d \<noteq> [] \<and> drop_bit 5 (d ! 0) \<noteq> 1 \<longrightarrow> isl (parseDisclosedVendorsSegment d)) \<and>
   (3 \<le> length d \<and> drop_bit 5 (d ! 0) = 1 \<longrightarrow>
      (\<exists>mv. ParseUInt16 d 3 = Inr mv \<and>
         (isSet d 19 = Inr True \<and>
            parseDisclosedVendorsSegment d =
              map_sum ParseRangeSectionFailed fst
                (parseRangeSection (ConsentMetadata_of_data d) mv 20) \<or>
          isSet d 19 = Inr False \<and>
            parseDisclosedVendorsSegment d =
              map_sum ParseBitFieldFailed fst
                (parseBitField (ConsentMetadata_of_data d) mv 20))))"
proof (intro conjI impI)
  assume "length d < 3"
  then show "isl (parseDisclosedVendorsSegment d)"
    by (simp add: parseDisclosedVendorsSegment_def)
next
  assume "d \<noteq> [] \<and> drop_bit 5 (d ! 0) \<noteq> 1"
  then show "isl (parseDisclosedVendorsSegment d)"
    by (simp add: parseDisclosedVendorsSegment_def ParseByte8_first
        SegmentTypeDisclosedVendors_def Let_def)
next
  assume a: "3 \<le> length d \<and> drop_bit 5 (d ! 0) = 1"
  then have ne: "d \<noteq> []" by auto
  obtain mv where mv: "ParseUInt16 d 3 = Inr mv"
    using a by (simp add: ParseUInt16_def ParseUInt_def)
  have bit: "isSet d 19 = Inr (bitAt d 19)"
    using a by (simp add: isSet_def)
  have "parseDisclosedVendorsSegment d =
          (if bitAt d 19
           then map_sum ParseRangeSectionFailed fst
                  (parseRangeSection (ConsentMetadata_of_data d) mv 20)
           else map_sum ParseBitFieldFailed fst
                  (parseBitField (ConsentMetadata_of_data d) mv 20))"
    using a mv bit
    by (auto simp: parseDisclosedVendorsSegment_def ParseByte8_first [OF ne]
        SegmentTypeDisclosedVendors_def Let_def split: sum.splits)
  with mv bit show "\<exists>mv. ParseUInt16 d 3 = Inr mv \<and>
         (isSet d 19 = Inr True \<and>
            parseDisclosedVendorsSegment d =
              map_sum ParseRangeSectionFailed fst
                (parseRangeSection (ConsentMetadata_of_data d) mv 20) \<or>
          isSet d 19 = Inr False \<and>
            parseDisclosedVendorsSegment d =
              map_sum ParseBitFieldFailed fst
                (parseBitField (ConsentMetadata_of_data d) mv 20))"
    by (cases "bitAt d 19") auto
qed

theorem parseDisclosedVendorsSegment_cases_witness:
  "isl (parseDisclosedVendorsSegment [0x20, 0x01]) \<and>
   isl (parseDisclosedVendorsSegment [0x60, 0x00, 0x00]) \<and>
   ParseUInt16 [0x20, 0x01, 0x4a, 0x80] 3 = Inr 10 \<and>
   isSet [0x20, 0x01, 0x4a, 0x80] 19 = Inr False \<and>
   parseDisclosedVendorsSegment [0x20, 0x01, 0x4a, 0x80] =
     map_sum ParseBitFieldFailed fst
       (parseBitField (ConsentMetadata_of_data [0x20, 0x01, 0x4a, 0x80]) 10 20) \<and>
   ParseUInt16 [0x20, 0x01, 0x50, 0x01, 0x00, 0x01, 0x80] 3 = Inr 10 \<and>
   isSet [0x20, 0x01, 0x50, 0x01, 0x00, 0x01, 0x80] 19 = Inr True \<and>
   parseDisclosedVendorsSegment [0x20, 0x01, 0x50, 0x01, 0x00, 0x01, 0x80] =
     map_sum ParseRangeSectionFailed fst
       (parseRangeSection
          (ConsentMetadata_of_data [0x20, 0x01, 0x50, 0x01, 0x00, 0x01, 0x80]) 10 20)"
proof -
  have t3: "drop_bit 5 ([0x60, 0x00, 0x00] ! 0 :: byte) \<noteq> 1"
    by simp
  have t1: "drop_bit 5 ([0x20, 0x01, 0x4a, 0x80] ! 0 :: byte) = 1"
    by simp
  have t1': "drop_bit 5 ([0x20, 0x01, 0x50, 0x01, 0x00, 0x01, 0x80] ! 0 :: byte) = 1"
    by simp
  have mv: "ParseUInt16 [0x20, 0x01, 0x4a, 0x80] 3 = Inr 10"
    by code_simp
  have bit: "isSet [0x20, 0x01, 0x4a, 0x80] 19 = Inr False"
    by code_simp
  have mv': "ParseUInt16 [0x20, 0x01, 0x50, 0x01, 0x00, 0x01, 0x80] 3 = Inr 10"
    by code_simp
  have bit': "isSet [0x20, 0x01, 0x50, 0x01, 0x00, 0x01, 0x80] 19 = Inr True"
    by code_simp
  show ?thesis
    using parseDisclosedVendorsSegment_cases [of "[0x20, 0x01]"]
      parseDisclosedVendorsSegment_cases [of "[0x60, 0x00, 0x00]"]
      parseDisclosedVendorsSegment_cases [of "[0x20, 0x01, 0x4a, 0x80]"]
      parseDisclosedVendorsSegment_cases [of "[0x20, 0x01, 0x50, 0x01, 0x00, 0x01, 0x80]"]
      t3 t1 t1' mv bit mv' bit'
    by auto
qed

end
